theory Spec2Isabelle
  imports Main
begin

section \<open>The observable history\<close>

text \<open>
  The module \<^verbatim>\<open>gpioout.py\<close> talks to the pin driver through three calls
  (\<^verbatim>\<open>gpio.init\<close>, \<^verbatim>\<open>gpio.setcfg\<close>, \<^verbatim>\<open>gpio.output\<close>) and to the
  cancellation signal through \<^verbatim>\<open>Event.wait\<close>.  Every such call is recorded, in
  program order, in a log.  Two further entries record the life cycle of a
  \<^verbatim>\<open>GPIOThread\<close>: \<open>Started\<close> is logged by \<^verbatim>\<open>GPIOThread.start\<close> when it
  registers the thread and \<open>Confirmed\<close> by \<^verbatim>\<open>GPIOThread.join\<close> when it finds
  the thread dead and discards it.

  Durations and timeouts are values of an arbitrary type \<open>'t\<close>: the code only
  passes them on (to \<^verbatim>\<open>Event.wait\<close>, to \<^verbatim>\<open>Thread.join\<close> and into the
  message of \<^verbatim>\<open>ZombieThread\<close>).
\<close>

datatype 't event =
    Init
  | Setcfg nat nat
  | Output nat nat
  | Wait 't
  | Started nat
  | Confirmed nat

text \<open>An f-string: literal pieces and interpolated values.\<close>

datatype 't piece = Lit string | Val 't

datatype 't error =
    ZombieThread "'t piece list"
  | AssertionError
  | RuntimeError string

text \<open>
  A call either returns or raises; in both cases it leaves a state behind.
  A call that never returns is the value \<open>None\<close> of the enclosing option.
\<close>

datatype ('e, 's) outcome = Return 's | Raise 'e 's

section \<open>The toggle loop \<^verbatim>\<open>LED._blink_device\<close>\<close>

text \<open>
  \<^verbatim>\<open>repeat(0)\<close> yields for ever, \<^verbatim>\<open>repeat(0, n)\<close> yields \<open>n\<close> times and not at
  all when \<open>n\<close> is negative.  The iterable is the number of items left, \<open>None\<close>
  when it is unbounded.
\<close>

definition repeat_iter :: "int option \<Rightarrow> nat option" where
  "repeat_iter n = (case n of None \<Rightarrow> None | Some k \<Rightarrow> Some (nat k))"

fun exhausted :: "nat option \<Rightarrow> bool" where
  "exhausted None = False"
| "exhausted (Some k) = (k = 0)"

fun advance :: "nat option \<Rightarrow> nat option" where
  "advance None = None"
| "advance (Some k) = Some (k - 1)"

text \<open>\<^verbatim>\<open>LED._write\<close>: a truthy value writes 1, anything else 0.\<close>

definition write_ev :: "nat \<Rightarrow> bool \<Rightarrow> 't event" where
  "write_ev p v = (if v then Output p 1 else Output p 0)"

text \<open>
  The \<^verbatim>\<open>for\<close> loop of \<^verbatim>\<open>_blink_device\<close>.  \<open>sig\<close> is the cancellation signal as
  the loop sees it: \<open>sig i\<close> is what the \<open>i\<close>-th call of
  \<^verbatim>\<open>stopping.wait\<close> made by this thread returns.  \<open>i\<close> counts the calls made so
  far and \<open>acc\<close> collects the driver calls and waits of the thread.
\<close>

partial_function (option) blink_loop ::
  "nat \<Rightarrow> 't \<Rightarrow> 't \<Rightarrow> (nat \<Rightarrow> bool) \<Rightarrow> nat option \<Rightarrow> nat \<Rightarrow> 't event list \<Rightarrow> 't event list option"
where
  "blink_loop p on_time off_time sig it i acc =
     (if exhausted it then Some acc
      else
        let acc1 = acc @ [write_ev p True, Wait on_time] in
        if sig i then Some acc1
        else
          let acc2 = acc1 @ [write_ev p False, Wait off_time] in
          if sig (i + 1) then Some acc2
          else blink_loop p on_time off_time sig (advance it) (i + 2) acc2)"

definition blink_device ::
  "nat \<Rightarrow> 't \<Rightarrow> 't \<Rightarrow> int option \<Rightarrow> (nat \<Rightarrow> bool) \<Rightarrow> 't event list option" where
  "blink_device p on_time off_time n sig =
     blink_loop p on_time off_time sig (repeat_iter n) 0 []"

section \<open>Threads and the program state\<close>

text \<open>
  A \<^verbatim>\<open>GPIOThread\<close> object: its \<^verbatim>\<open>stopping\<close> event, the two facts
  \<^verbatim>\<open>threading.Thread\<close> keeps about it (whether it was started, whether it is
  alive), the arguments \<^verbatim>\<open>(on_time, off_time, n)\<close> of its target
  \<^verbatim>\<open>_blink_device\<close>, and the daemon flag.
\<close>

record 't gpio_thread =
  stopping :: bool
  started :: bool
  alive :: bool
  target_args :: "'t \<times> 't \<times> int option"
  daemon :: bool

text \<open>
  The state: the module-level set \<^verbatim>\<open>_THREADS\<close>, the thread objects by
  identity, the next unused identity, the log, and the attributes of the one
  \<^verbatim>\<open>LED\<close> object.
\<close>

record 't state =
  THREADS :: "nat set"
  heap :: "nat \<Rightarrow> 't gpio_thread"
  next_tid :: nat
  log :: "'t event list"
  blink_thread :: "nat option"
  port :: nat
  active_state :: bool
  inactive_state :: bool

text \<open>
  What the surroundings contribute to one wait for a thread: how many of the
  thread's \<^verbatim>\<open>stopping.wait\<close> calls ran into their timeout before the signal was
  raised, and whether the thread gets to its end before a timed
  \<^verbatim>\<open>Thread.join\<close> gives up.
\<close>

record env =
  unsignalled :: nat
  in_time :: bool

definition andthen ::
  "('e, 's) outcome option \<Rightarrow> ('s \<Rightarrow> ('e, 's) outcome option) \<Rightarrow> ('e, 's) outcome option" where
  "andthen m f = (case m of
       None \<Rightarrow> None
     | Some (Raise e s) \<Rightarrow> Some (Raise e s)
     | Some (Return s) \<Rightarrow> f s)"

subsection \<open>\<^verbatim>\<open>threading.Thread\<close>\<close>

text \<open>
  \<^verbatim>\<open>Event.wait\<close> returns true only once the event is set, and the event of a
  thread is set by \<^verbatim>\<open>GPIOThread.stop\<close> alone: with the flag down every wait of
  the thread times out; with the flag up the waits from number
  \<open>unsignalled\<close> on return true.
\<close>

definition signal :: "'t gpio_thread \<Rightarrow> env \<Rightarrow> nat \<Rightarrow> bool" where
  "signal th e i = (stopping th \<and> unsignalled e \<le> i)"

definition run_target :: "'t state \<Rightarrow> 't gpio_thread \<Rightarrow> env \<Rightarrow> 't event list option" where
  "run_target s th e =
     (case target_args th of (on_time, off_time, n) \<Rightarrow>
        blink_device (port s) on_time off_time n (signal th e))"

definition finish :: "nat \<Rightarrow> 't event list \<Rightarrow> 't state \<Rightarrow> 't state" where
  "finish tid evs s =
     s\<lparr>heap := (heap s)(tid := (heap s tid)\<lparr>alive := False\<rparr>), log := log s @ evs\<rparr>"

text \<open>
  \<^verbatim>\<open>Thread.start\<close> refuses a second start.  \<^verbatim>\<open>Thread.join\<close> refuses a thread
  that was never started, returns at once when the thread is dead, and
  otherwise waits: without a timeout until the target has returned (for ever
  when it does not), with a timeout until the target has returned or the
  time is up.  The calls the thread made are entered in the log when the wait
  sees it dead.
\<close>

definition super_start :: "nat \<Rightarrow> 't state \<Rightarrow> ('t error, 't state) outcome" where
  "super_start tid s =
     (if started (heap s tid)
      then Raise (RuntimeError ''threads can only be started once'') s
      else Return (s\<lparr>heap := (heap s)(tid := (heap s tid)\<lparr>started := True, alive := True\<rparr>)\<rparr>))"

definition super_join ::
  "nat \<Rightarrow> 't option \<Rightarrow> env \<Rightarrow> 't state \<Rightarrow> ('t error, 't state) outcome option" where
  "super_join tid timeout e s =
     (let th = heap s tid in
      if \<not> started th
      then Some (Raise (RuntimeError ''cannot join thread before it is started'') s)
      else if \<not> alive th then Some (Return s)
      else case timeout of
          None \<Rightarrow>
            (case run_target s th e of
               None \<Rightarrow> None
             | Some evs \<Rightarrow> Some (Return (finish tid evs s)))
        | Some t \<Rightarrow>
            (if in_time e
             then (case run_target s th e of
                     None \<Rightarrow> Some (Return s)
                   | Some evs \<Rightarrow> Some (Return (finish tid evs s)))
             else Some (Return s)))"

subsection \<open>\<^verbatim>\<open>GPIOThread\<close>\<close>

definition GPIOThread_init :: "'t \<times> 't \<times> int option \<Rightarrow> 't state \<Rightarrow> nat \<times> 't state" where
  "GPIOThread_init args s =
     (let tid = next_tid s in
      (tid, s\<lparr>next_tid := tid + 1,
               heap := (heap s)(tid :=
                 \<lparr>stopping = False, started = False, alive = False,
                  target_args = args, daemon = True\<rparr>)\<rparr>))"

definition start :: "nat \<Rightarrow> 't state \<Rightarrow> ('t error, 't state) outcome" where
  "start tid s =
     (let s1 = s\<lparr>heap := (heap s)(tid := (heap s tid)\<lparr>stopping := False\<rparr>)\<rparr>;
          s2 = s1\<lparr>THREADS := insert tid (THREADS s1), log := log s1 @ [Started tid]\<rparr>
      in super_start tid s2)"

definition zombie_message :: "'t \<Rightarrow> 't piece list" where
  "zombie_message t = [Lit ''Thread failed to die within '', Val t, Lit '' seconds'']"

definition join ::
  "nat \<Rightarrow> 't option \<Rightarrow> env \<Rightarrow> 't state \<Rightarrow> ('t error, 't state) outcome option" where
  "join tid timeout e s =
     andthen (super_join tid timeout e s) (\<lambda>s1.
       if alive (heap s1 tid)
       then (case timeout of
               None \<Rightarrow> Some (Raise AssertionError s1)
             | Some t \<Rightarrow> Some (Raise (ZombieThread (zombie_message t)) s1))
       else Some (Return (s1\<lparr>THREADS := THREADS s1 - {tid},
                               log := log s1 @ [Confirmed tid]\<rparr>)))"

definition stop ::
  "nat \<Rightarrow> 't option \<Rightarrow> env \<Rightarrow> 't state \<Rightarrow> ('t error, 't state) outcome option" where
  "stop tid timeout e s =
     (let s1 = s\<lparr>heap := (heap s)(tid := (heap s tid)\<lparr>stopping := True\<rparr>)\<rparr>
      in join tid timeout e s1)"

section \<open>\<^verbatim>\<open>LED\<close>\<close>

text \<open>
  \<open>GPIO4\<close> is the constant \<^verbatim>\<open>port.GPIO4\<close> of the driver package, \<open>pin\<close> the
  constructor's argument \<^verbatim>\<open>_pin\<close>.
\<close>

definition LED_init :: "nat \<Rightarrow> nat option \<Rightarrow> 't state \<Rightarrow> 't state" where
  "LED_init GPIO4 pin s =
     (let s1 = s\<lparr>blink_thread := None\<rparr>;
          s2 = s1\<lparr>log := log s1 @ [Init]\<rparr>;
          s3 = s2\<lparr>port := GPIO4\<rparr>;
          s4 = s3\<lparr>log := log s3 @ [Setcfg (port s3) 1]\<rparr>
      in s4\<lparr>active_state := True, inactive_state := False\<rparr>)"

definition LED_write :: "bool \<Rightarrow> 't state \<Rightarrow> 't state" where
  "LED_write v s = s\<lparr>log := log s @ [write_ev (port s) v]\<rparr>"

definition stop_blink :: "env \<Rightarrow> ('t::numeral) state \<Rightarrow> ('t error, 't state) outcome option" where
  "stop_blink e s =
     andthen (case blink_thread s of
                None \<Rightarrow> Some (Return s)
              | Some tid \<Rightarrow> stop tid (Some 10) e s)
       (\<lambda>s1. Some (Return (s1\<lparr>blink_thread := None\<rparr>)))"

definition close :: "env \<Rightarrow> ('t::numeral) state \<Rightarrow> ('t error, 't state) outcome option" where
  "close e s = andthen (stop_blink e s) (\<lambda>s1. Some (Return (s1\<lparr>log := log s1 @ [Init]\<rparr>)))"

definition on :: "env \<Rightarrow> ('t::numeral) state \<Rightarrow> ('t error, 't state) outcome option" where
  "on e s = andthen (stop_blink e s) (\<lambda>s1. Some (Return (LED_write True s1)))"

definition off :: "env \<Rightarrow> ('t::numeral) state \<Rightarrow> ('t error, 't state) outcome option" where
  "off e s = andthen (stop_blink e s) (\<lambda>s1. Some (Return (LED_write False s1)))"

definition blink ::
  "'t \<Rightarrow> 't \<Rightarrow> int option \<Rightarrow> bool \<Rightarrow> env \<Rightarrow> ('t::numeral) state \<Rightarrow> ('t error, 't state) outcome option" where
  "blink on_time off_time n background e s =
     andthen (stop_blink e s) (\<lambda>s1.
       case GPIOThread_init (on_time, off_time, n) s1 of (tid, s2) \<Rightarrow>
         let s3 = s2\<lparr>blink_thread := Some tid\<rparr> in
         andthen (Some (start tid s3)) (\<lambda>s4.
           if \<not> background
           then andthen (join tid None e s4) (\<lambda>s5. Some (Return (s5\<lparr>blink_thread := None\<rparr>)))
           else Some (Return s4)))"

text \<open>The state of a fresh interpreter: no thread registered, nothing logged.\<close>

definition initial :: "'t state" where
  "initial =
     \<lparr>THREADS = {},
      heap = (\<lambda>_. \<lparr>stopping = False, started = False, alive = False,
                    target_args = (undefined, undefined, None), daemon = True\<rparr>),
      next_tid = 0, log = [], blink_thread = None, port = 0,
      active_state = True, inactive_state = False\<rparr>"

section \<open>Observations on the log\<close>

text \<open>One full cycle of the toggle loop as it appears in the log, and \<open>k\<close> of them.\<close>

definition cycle :: "nat \<Rightarrow> 't \<Rightarrow> 't \<Rightarrow> 't event list" where
  "cycle p on_time off_time = [Output p 1, Wait on_time, Output p 0, Wait off_time]"

definition cycles :: "nat \<Rightarrow> 't \<Rightarrow> 't \<Rightarrow> nat \<Rightarrow> 't event list" where
  "cycles p on_time off_time k = concat (replicate k (cycle p on_time off_time))"

text \<open>The levels written to the pin, in order, and the level the pin is left at.\<close>

fun writes :: "'t event list \<Rightarrow> nat list" where
  "writes [] = []"
| "writes (Output p l # es) = l # writes es"
| "writes (_ # es) = writes es"

definition level :: "'t event list \<Rightarrow> nat option" where
  "level es = (if writes es = [] then None else Some (last (writes es)))"

text \<open>
  \<open>awaited tid es\<close>: in the history \<open>es\<close> a \<^verbatim>\<open>start\<close> call on thread \<open>tid\<close> is
  on record and no join has found the thread dead since the latest one.
\<close>

definition awaited :: "nat \<Rightarrow> 't event list \<Rightarrow> bool" where
  "awaited tid es =
     foldl (\<lambda>b ev. if ev = Started tid then True
                    else if ev = Confirmed tid then False else b) False es"

text \<open>The state a call leaves behind, whether it returned or raised.\<close>

fun final :: "('e, 's) outcome \<Rightarrow> 's" where
  "final (Return s) = s"
| "final (Raise e s) = s"

text \<open>What a call raised, if it raised, and the state it left, if it came back at all.\<close>

fun raised :: "('e, 's) outcome option \<Rightarrow> 'e option" where
  "raised (Some (Raise e s)) = Some e"
| "raised _ = None"

fun after :: "('e, 's) outcome option \<Rightarrow> 's option" where
  "after (Some r) = Some (final r)"
| "after None = None"

text \<open>
  Concrete surroundings and states used to exercise the theorems: a device
  constructed in a fresh interpreter (with \<^verbatim>\<open>port.GPIO4\<close> taken to be 4), the
  same device after \<^verbatim>\<open>blink(1, 1, 2)\<close> has put a task in the background, the
  fresh device after \<^verbatim>\<open>on()\<close>, and the blinking device after its task has run
  out and a join without timeout has found it dead.
\<close>

definition quiet :: env where
  "quiet = \<lparr>unsignalled = 0, in_time = True\<rparr>"

definition stuck :: env where
  "stuck = \<lparr>unsignalled = 0, in_time = False\<rparr>"

definition fresh_led :: "nat state" where
  "fresh_led = LED_init 4 (Some 7) initial"

definition blinking_led :: "nat state" where
  "blinking_led = (case blink 1 1 (Some 2) True quiet fresh_led of
                     Some r \<Rightarrow> final r | None \<Rightarrow> fresh_led)"

definition lit_led :: "nat state" where
  "lit_led = (case on quiet fresh_led of Some r \<Rightarrow> final r | None \<Rightarrow> fresh_led)"

definition joined_led :: "nat state" where
  "joined_led = (case join 0 None quiet blinking_led of Some r \<Rightarrow> final r | None \<Rightarrow> blinking_led)"

section \<open>The toggle loop, proved\<close>

lemma cycles_Suc: "cycles p a b (Suc k) = cycle p a b @ cycles p a b k"
  by (simp add: cycles_def)

lemma cycles_0: "cycles p a b 0 = []"
  by (simp add: cycles_def)

lemma loop_quiet:
  "(\<forall>j<2 * k. \<not> sig (i + j)) \<Longrightarrow>
     blink_loop p a b sig (Some k) i acc = Some (acc @ cycles p a b k)"
proof (induction k arbitrary: i acc)
  case 0
  show ?case by (subst blink_loop.simps) (simp add: cycles_0)
next
  case (Suc k)
  have s0: "\<not> sig i" using Suc.prems [rule_format, of 0] by simp
  have s1: "\<not> sig (Suc i)" using Suc.prems [rule_format, of 1] by simp
  have rest: "\<forall>j<2 * k. \<not> sig (i + 2 + j)"
  proof (intro allI impI)
    fix j assume "j < 2 * k"
    then have "j + 2 < 2 * Suc k" by simp
    from Suc.prems [rule_format, OF this] show "\<not> sig (i + 2 + j)" by (simp add: add.commute add.left_commute)
  qed
  have ih: "blink_loop p a b sig (Some k) (Suc (Suc i)) (acc @ [Output p (Suc 0), Wait a, Output p 0, Wait b])
      = Some ((acc @ [Output p (Suc 0), Wait a, Output p 0, Wait b]) @ cycles p a b k)"
    using Suc.IH [OF rest] by simp
  show ?case
    by (subst blink_loop.simps)
       (simp add: s0 s1 Let_def ih cycles_Suc cycle_def write_ev_def)
qed

lemma loop_signalled:
  "(\<forall>j<m. \<not> sig (i + j)) \<Longrightarrow> sig (i + m) \<Longrightarrow>
   (case it of Some k \<Rightarrow> m < 2 * k | None \<Rightarrow> True) \<Longrightarrow>
     blink_loop p a b sig it i acc =
       Some (acc @ cycles p a b (m div 2) @
             (if even m then [Output p 1, Wait a] else cycle p a b))"
proof (induction m arbitrary: i acc it rule: less_induct)
  case (less m)
  have ne: "\<not> exhausted it" using less.prems(3) by (cases it) auto
  show ?case
  proof (cases "m = 0")
    case True
    then show ?thesis using less.prems(2) ne
      by (subst blink_loop.simps) (simp add: Let_def cycles_0 write_ev_def)
  next
    case False
    then have s0: "\<not> sig i" using less.prems(1) [rule_format, of 0] by simp
    show ?thesis
    proof (cases "m = 1")
      case True
      then show ?thesis using less.prems(2) ne s0
        by (subst blink_loop.simps) (simp add: Let_def cycles_0 write_ev_def cycle_def)
    next
      case m1: False
      with False have m2: "2 \<le> m" by simp
      then have s1: "\<not> sig (Suc i)" using less.prems(1) [rule_format, of 1] by simp
      obtain m' where m': "m = m' + 2" using m2 by (metis add.commute le_Suc_ex)
      have p1: "\<forall>j<m'. \<not> sig (i + 2 + j)"
      proof (intro allI impI)
        fix j assume "j < m'"
        then have "j + 2 < m" using m' by simp
        from less.prems(1) [rule_format, OF this] show "\<not> sig (i + 2 + j)"
          by (simp add: add.commute add.left_commute)
      qed
      have p2: "sig (i + 2 + m')" using less.prems(2) m' by (simp add: add.commute add.left_commute)
      have p3: "(case advance it of Some k \<Rightarrow> m' < 2 * k | None \<Rightarrow> True)"
        using less.prems(3) m' by (cases it) auto
      have lt: "m' < m" using m' by simp
      have d: "m div 2 = Suc (m' div 2)" using m' by simp
      have ev: "even m = even m'" using m' by simp
      have ih: "blink_loop p a b sig (advance it) (Suc (Suc i)) (acc @ [Output p (Suc 0), Wait a, Output p 0, Wait b])
        = Some ((acc @ [Output p (Suc 0), Wait a, Output p 0, Wait b]) @ cycles p a b (m' div 2) @
             (if even m' then [Output p 1, Wait a] else cycle p a b))"
        using less.IH [OF lt p1 p2 p3] by simp
      show ?thesis
        by (subst blink_loop.simps)
           (simp add: ne s0 s1 Let_def ih d ev cycles_Suc cycle_def write_ev_def)
    qed
  qed
qed

lemma loop_never_aux:
  assumes "blink_loop p a b sig it i acc = Some r"
  shows "it = None \<longrightarrow> (\<exists>j. sig j)"
  by (rule blink_loop.raw_induct
        [where P = "\<lambda>p a b sig it i acc r. it = None \<longrightarrow> (\<exists>j. sig j)", OF _ assms])
     (auto simp: Let_def split: if_splits)

lemma loop_never: "\<forall>j. \<not> sig j \<Longrightarrow> blink_loop p a b sig None i acc = None"
  using loop_never_aux [of p a b sig None i acc] by (cases "blink_loop p a b sig None i acc") auto

lemma writes_append: "writes (xs @ ys) = writes xs @ writes ys"
  by (induction xs rule: writes.induct) simp_all

lemma writes_cycles: "writes (cycles p a b k) = concat (replicate k [1, 0])"
  by (induction k) (simp_all add: cycles_def cycle_def)

text \<open>
  C5.  The toggle loop run with \<^verbatim>\<open>n\<close> a number and no signal during its
  \<open>2 * n\<close> waits makes exactly \<open>n\<close> rounds (none for a negative \<open>n\<close>): write 1,
  wait \<open>on_time\<close>, write 0, wait \<open>off_time\<close>.  Run with \<^verbatim>\<open>n = None\<close> and never
  signalled it does not return.  When wait number \<open>m\<close> is the first to be
  signalled (and the count, if any, has not run out before), the loop returns
  right there after \<open>m div 2\<close> full rounds: after the write of 1 and the wait
  on \<open>on_time\<close> when the signal comes in the on-phase, the pin left at 1, and
  after a full round when it comes in the off-phase, the pin left at 0.
\<close>

theorem toggle_loop:
  "((\<forall>i<2 * nat k. \<not> sig i) \<longrightarrow>
      blink_device p a b (Some k) sig = Some (cycles p a b (nat k))) \<and>
   ((\<forall>i. \<not> sig i) \<longrightarrow> blink_device p a b None sig = None) \<and>
   ((\<forall>i<m. \<not> sig i) \<and> sig m \<and> (case n of Some c \<Rightarrow> m < 2 * nat c | None \<Rightarrow> True) \<longrightarrow>
      (\<exists>evs. blink_device p a b n sig = Some evs \<and>
         evs = cycles p a b (m div 2) @
               (if even m then [Output p 1, Wait a] else cycle p a b) \<and>
         level evs = Some (if even m then 1 else 0)))"
proof (intro conjI impI)
  assume "\<forall>i<2 * nat k. \<not> sig i"
  then show "blink_device p a b (Some k) sig = Some (cycles p a b (nat k))"
    using loop_quiet [of "nat k" sig 0 p a b "[]"] by (simp add: blink_device_def repeat_iter_def)
next
  assume "\<forall>i. \<not> sig i"
  then show "blink_device p a b None sig = None"
    by (simp add: blink_device_def repeat_iter_def loop_never)
next
  assume h: "(\<forall>i<m. \<not> sig i) \<and> sig m \<and> (case n of Some c \<Rightarrow> m < 2 * nat c | None \<Rightarrow> True)"
  have c: "case repeat_iter n of Some k \<Rightarrow> m < 2 * k | None \<Rightarrow> True"
    using h by (cases n) (simp_all add: repeat_iter_def)
  have "blink_device p a b n sig =
          Some (cycles p a b (m div 2) @ (if even m then [Output p 1, Wait a] else cycle p a b))"
    using loop_signalled [of m sig 0 "repeat_iter n" p a b "[]"] h c
    by (simp add: blink_device_def)
  moreover have "level (cycles p a b (m div 2) @ (if even m then [Output p 1, Wait a] else cycle p a b))
                   = Some (if even m then 1 else 0)"
    by (simp add: level_def writes_append cycle_def)
  ultimately show "\<exists>evs. blink_device p a b n sig = Some evs \<and>
         evs = cycles p a b (m div 2) @
               (if even m then [Output p 1, Wait a] else cycle p a b) \<and>
         level evs = Some (if even m then 1 else 0)" by simp
qed

theorem toggle_loop_witness:
  "blink_device 4 (1::nat) 2 (Some 3) (\<lambda>i. False) = Some (cycles 4 1 2 3) \<and>
   blink_device 4 (1::nat) 2 None (\<lambda>i. False) = None \<and>
   blink_device 4 (1::nat) 2 None (\<lambda>i. 2 \<le> i) =
     Some [Output 4 1, Wait 1, Output 4 0, Wait 2, Output 4 1, Wait 1] \<and>
   blink_device 4 (1::nat) 2 (Some 5) (\<lambda>i. 1 \<le> i) =
     Some [Output 4 1, Wait 1, Output 4 0, Wait 2]"
  using toggle_loop [of 3 "\<lambda>i. False" 4 "1::nat" 2 0 None]
        toggle_loop [of 3 "\<lambda>i. 2 \<le> i" 4 "1::nat" 2 2 None]
        toggle_loop [of 3 "\<lambda>i. 1 \<le> i" 4 "1::nat" 2 1 "Some 5"]
  by (simp add: cycles_def cycle_def)

section \<open>The life cycle of a thread\<close>

lemma fresh_led_simps:
  "blink_thread fresh_led = None" "port fresh_led = 4" "log fresh_led = [Init, Setcfg 4 1]"
  "THREADS fresh_led = {}" "next_tid fresh_led = 0"
  by (simp_all add: fresh_led_def LED_init_def initial_def Let_def)

lemma blinking_led_simps:
  "blink_thread blinking_led = Some 0"
  "port blinking_led = 4"
  "log blinking_led = [Init, Setcfg 4 1, Started 0]"
  "THREADS blinking_led = {0}"
  "next_tid blinking_led = 1"
  "started (heap blinking_led 0)"
  "alive (heap blinking_led 0)"
  "\<not> stopping (heap blinking_led 0)"
  "target_args (heap blinking_led 0) = (1, 1, Some 2)"
  by (simp_all add: blinking_led_def blink_def stop_blink_def andthen_def fresh_led_simps
        GPIOThread_init_def start_def super_start_def Let_def)

lemma run_target_running:
  assumes "\<not> stopping th" and "target_args th = (a, b, Some c)"
  shows "run_target s th e = Some (cycles (port s) a b (nat c))"
  using assms loop_quiet [of "nat c" "signal th e" 0 "port s" a b "[]"]
  by (simp add: run_target_def blink_device_def repeat_iter_def signal_def)

lemma run_target_forever:
  assumes "\<not> stopping th" and "target_args th = (a, b, None)"
  shows "run_target s th e = None"
  using assms loop_never [of "signal th e" "port s" a b 0 "[]"]
  by (simp add: run_target_def blink_device_def repeat_iter_def signal_def)

lemma run_target_stopping:
  assumes "stopping th" and "target_args th = (a, b, n)"
  shows "run_target s th e =
           Some (if (case n of Some c \<Rightarrow> 2 * nat c \<le> unsignalled e | None \<Rightarrow> False)
                 then cycles (port s) a b (nat (the n))
                 else cycles (port s) a b (unsignalled e div 2) @
                      (if even (unsignalled e) then [Output (port s) 1, Wait a]
                       else cycle (port s) a b))"
proof (cases "case n of Some c \<Rightarrow> 2 * nat c \<le> unsignalled e | None \<Rightarrow> False")
  case True
  then obtain c where n: "n = Some c" and le: "2 * nat c \<le> unsignalled e"
    by (cases n) auto
  have "\<forall>j<2 * nat c. \<not> signal th e (0 + j)" using le by (simp add: signal_def)
  from loop_quiet [OF this, of "port s" a b "[]"] show ?thesis
    using assms n le by (simp add: run_target_def blink_device_def repeat_iter_def)
next
  case False
  then have c: "case repeat_iter n of Some k \<Rightarrow> unsignalled e < 2 * k | None \<Rightarrow> True"
    by (cases n) (simp_all add: repeat_iter_def)
  have q: "\<forall>j<unsignalled e. \<not> signal th e (0 + j)" by (simp add: signal_def)
  have g: "signal th e (0 + unsignalled e)" using assms by (simp add: signal_def)
  from loop_signalled [OF q g c, of "port s" a b "[]"] show ?thesis
    using assms False by (simp add: run_target_def blink_device_def)
qed

text \<open>
  C1.  \<^verbatim>\<open>stop(timeout)\<close> on a started thread with a concrete timeout always comes
  back.  It returns normally exactly when the thread is dead after the wait,
  and then the thread is out of \<^verbatim>\<open>_THREADS\<close>; when the thread is still alive
  it raises \<^verbatim>\<open>ZombieThread\<close> with the message built from the timeout and leaves
  \<^verbatim>\<open>_THREADS\<close> as it was.
\<close>

theorem stop_outcome:
  assumes "started (heap s tid)"
  shows "case stop tid (Some t) e s of
           None \<Rightarrow> False
         | Some (Return s') \<Rightarrow>
             \<not> alive (heap s' tid) \<and> THREADS s' = THREADS s - {tid}
         | Some (Raise err s') \<Rightarrow>
             alive (heap s' tid) \<and> THREADS s' = THREADS s \<and>
             err = ZombieThread (zombie_message t) \<and> Val t \<in> set (zombie_message t)"
  using assms
  by (auto simp: stop_def join_def super_join_def andthen_def finish_def Let_def zombie_message_def
           split: option.splits outcome.splits)

theorem stop_outcome_witness:
  "started (heap blinking_led 0) \<and>
   raised (stop 0 (Some 10) stuck blinking_led) = Some (ZombieThread (zombie_message 10)) \<and>
   map_option THREADS (after (stop 0 (Some 10) stuck blinking_led)) = Some {0} \<and>
   raised (stop 0 (Some 10) quiet blinking_led) = None \<and>
   map_option THREADS (after (stop 0 (Some 10) quiet blinking_led)) = Some {}"
proof -
  have h: "started (heap blinking_led 0)" by (simp add: blinking_led_simps)
  have z: "stop 0 (Some 10) stuck blinking_led \<noteq> None"
    "stop 0 (Some 10) quiet blinking_led \<noteq> None"
    using stop_outcome [OF h, of 10 stuck] stop_outcome [OF h, of 10 quiet]
    by (auto split: option.splits)
  have a1: "alive (heap (blinking_led\<lparr>heap := (heap blinking_led)
              (0 := (heap blinking_led 0)\<lparr>stopping := True\<rparr>)\<rparr>) 0)"
    by (simp add: blinking_led_simps)
  have r: "run_target s ((heap blinking_led 0)\<lparr>stopping := True\<rparr>) quiet = Some [Output (port s) 1, Wait 1]" for s :: "nat state"
    using run_target_stopping [of "(heap blinking_led 0)\<lparr>stopping := True\<rparr>" 1 1 "Some 2" s quiet]
    by (simp add: blinking_led_simps quiet_def cycles_def)
  have s1: "stop 0 (Some 10) stuck blinking_led =
          Some (Raise (ZombieThread (zombie_message 10))
            (blinking_led\<lparr>heap := (heap blinking_led)(0 := (heap blinking_led 0)\<lparr>stopping := True\<rparr>)\<rparr>))"
    by (simp add: stop_def join_def super_join_def andthen_def Let_def stuck_def blinking_led_simps)
  have s2: "\<exists>s'. stop 0 (Some 10) quiet blinking_led = Some (Return s') \<and> THREADS s' = {}"
    by (simp add: stop_def join_def super_join_def andthen_def Let_def r finish_def blinking_led_simps)
       (simp add: quiet_def)
  show ?thesis using h z s1 s2 by (auto simp: blinking_led_simps)
qed

text \<open>
  C10.  A join without timeout never takes the still-alive branch: it neither
  trips the assertion nor raises \<^verbatim>\<open>ZombieThread\<close>.  It either does not come
  back, or refuses a thread that was never started, or returns with the
  thread dead.  Whenever a join does raise \<^verbatim>\<open>ZombieThread\<close>, it was called with
  a concrete timeout, and the message is the one built from it.
\<close>

theorem join_without_timeout:
  "raised (join tid None e s) \<noteq> Some AssertionError \<and>
   raised (join tid None e s) \<noteq> Some (ZombieThread m) \<and>
   (\<forall>s'. join tid None e s = Some (Return s') \<longrightarrow> \<not> alive (heap s' tid)) \<and>
   (\<forall>err s'. join tid None e s = Some (Raise err s') \<longrightarrow>
       \<not> started (heap s tid) \<and>
       err = RuntimeError ''cannot join thread before it is started'') \<and>
   (\<forall>s'. join tid timeout e s = Some (Raise (ZombieThread m) s') \<longrightarrow>
       (\<exists>t. timeout = Some t \<and> m = zombie_message t))"
  by (auto simp: join_def super_join_def andthen_def finish_def Let_def
           split: option.splits outcome.splits if_splits)

theorem join_without_timeout_witness:
  "raised (join 0 None quiet blinking_led) = None \<and>
   map_option (\<lambda>s'. alive (heap s' 0)) (after (join 0 None quiet blinking_led)) = Some False \<and>
   raised (join 5 None quiet blinking_led) =
     Some (RuntimeError ''cannot join thread before it is started'') \<and>
   raised (join 0 (Some 3) stuck blinking_led) = Some (ZombieThread (zombie_message 3))"
proof -
  have r: "run_target s (heap blinking_led 0) quiet = Some (cycles (port s) 1 1 2)" for s :: "nat state"
    using run_target_running [of "heap blinking_led 0" 1 1 2 s quiet]
    by (simp add: blinking_led_simps)
  have ns: "\<not> started (heap blinking_led 5)"
    by (simp add: blinking_led_def blink_def stop_blink_def andthen_def fresh_led_simps
          GPIOThread_init_def start_def super_start_def Let_def)
       (simp add: fresh_led_def LED_init_def initial_def Let_def)
  have j1: "\<exists>s'. join 0 None quiet blinking_led = Some (Return s') \<and> \<not> alive (heap s' 0)"
    using join_without_timeout [of 0 quiet blinking_led "[]" None]
    by (simp add: join_def super_join_def andthen_def Let_def r finish_def blinking_led_simps)
  have j2: "join 5 None quiet blinking_led =
      Some (Raise (RuntimeError ''cannot join thread before it is started'') blinking_led)"
    using ns by (simp add: join_def super_join_def andthen_def Let_def)
  have j3: "join 0 (Some 3) stuck blinking_led =
      Some (Raise (ZombieThread (zombie_message 3)) blinking_led)"
    by (simp add: join_def super_join_def andthen_def Let_def stuck_def blinking_led_simps)
  show ?thesis using j1 j2 j3 by auto
qed

section \<open>The device\<close>

lemma stop_blink_idle: "blink_thread s = None \<Longrightarrow> stop_blink e s = Some (Return s)"
  by (simp add: stop_blink_def andthen_def)

lemma stop_total: "stop tid (Some t) e s \<noteq> None"
  by (auto simp: stop_def join_def super_join_def andthen_def Let_def
           split: option.splits outcome.splits)

lemma stop_blink_total: "stop_blink e s \<noteq> None"
  using stop_total [of _ 10 e s]
  by (auto simp: stop_blink_def andthen_def split: option.splits outcome.splits)

lemma stop_Return:
  assumes "stop tid (Some t) e s = Some (Return s')"
  shows "\<not> alive (heap s' tid)" "THREADS s' = THREADS s - {tid}"
        "port s' = port s" "next_tid s' = next_tid s" "blink_thread s' = blink_thread s"
        "\<exists>evs. log s' = log s @ evs @ [Confirmed tid]"
  using assms
  by (auto simp: stop_def join_def super_join_def andthen_def finish_def Let_def
           split: option.splits outcome.splits if_splits)

lemma stop_Raise:
  assumes "stop tid (Some t) e s = Some (Raise err s')"
  shows "s' = s\<lparr>heap := (heap s)(tid := (heap s tid)\<lparr>stopping := True\<rparr>)\<rparr>"
        "err = ZombieThread (zombie_message t) \<and> alive (heap s tid) \<or>
         err = RuntimeError ''cannot join thread before it is started'' \<and> \<not> started (heap s tid)"
  using assms
  by (auto simp: stop_def join_def super_join_def andthen_def finish_def Let_def
           split: option.splits outcome.splits if_splits)

lemma stop_blink_Return:
  assumes "stop_blink e s = Some (Return s1)"
  shows "blink_thread s1 = None" "port s1 = port s" "next_tid s1 = next_tid s"
        "blink_thread s = None \<Longrightarrow> s1 = s"
        "blink_thread s = Some tid \<Longrightarrow>
           \<not> alive (heap s1 tid) \<and> THREADS s1 = THREADS s - {tid} \<and>
           (\<exists>evs. log s1 = log s @ evs @ [Confirmed tid])"
proof -
  have idle: "s1 = s" if "blink_thread s = None"
  proof -
    from stop_blink_idle [OF that, of e] have "stop_blink e s = Some (Return s)" .
    with assms show "s1 = s" by (simp only: option.inject outcome.inject)
  qed
  have busy: "\<exists>s'. stop u (Some 10) e s = Some (Return s') \<and> s1 = s'\<lparr>blink_thread := None\<rparr>"
    if "blink_thread s = Some u" for u
    using assms that
    by (simp add: stop_blink_def andthen_def split: option.splits outcome.splits)
  show "blink_thread s = None \<Longrightarrow> s1 = s" by (rule idle)
  show "blink_thread s1 = None"
  proof (cases "blink_thread s")
    case None
    with idle show ?thesis by simp
  next
    case (Some u)
    from busy [OF Some] show ?thesis by auto
  qed
  show "port s1 = port s"
  proof (cases "blink_thread s")
    case None
    with idle show ?thesis by simp
  next
    case (Some u)
    from busy [OF Some] obtain s' where s': "stop u (Some 10) e s = Some (Return s')"
      and eq: "s1 = s'\<lparr>blink_thread := None\<rparr>" by blast
    from stop_Return(3) [OF s'] eq show ?thesis by simp
  qed
  show "next_tid s1 = next_tid s"
  proof (cases "blink_thread s")
    case None
    with idle show ?thesis by simp
  next
    case (Some u)
    from busy [OF Some] obtain s' where s': "stop u (Some 10) e s = Some (Return s')"
      and eq: "s1 = s'\<lparr>blink_thread := None\<rparr>" by blast
    from stop_Return(4) [OF s'] eq show ?thesis by simp
  qed
  show "\<not> alive (heap s1 tid) \<and> THREADS s1 = THREADS s - {tid} \<and>
           (\<exists>evs. log s1 = log s @ evs @ [Confirmed tid])"
    if t: "blink_thread s = Some tid"
  proof -
    from busy [OF t] obtain s' where s': "stop tid (Some 10) e s = Some (Return s')"
      and eq: "s1 = s'\<lparr>blink_thread := None\<rparr>" by blast
    from stop_Return(1,2,6) [OF s'] eq show ?thesis by simp
  qed
qed

lemma stop_blink_Raise:
  assumes "stop_blink e s = Some (Raise err s1)"
  shows "\<exists>tid. blink_thread s = Some tid \<and> stop tid (Some 10) e s = Some (Raise err s1)"
        "blink_thread s1 = blink_thread s" "THREADS s1 = THREADS s" "log s1 = log s"
proof -
  show t: "\<exists>tid. blink_thread s = Some tid \<and> stop tid (Some 10) e s = Some (Raise err s1)"
    using assms by (auto simp: stop_blink_def andthen_def split: option.splits outcome.splits)
  then obtain tid where "stop tid (Some 10) e s = Some (Raise err s1)" by blast
  from stop_Raise(1) [OF this]
  show "blink_thread s1 = blink_thread s" "THREADS s1 = THREADS s" "log s1 = log s"
    by simp_all
qed



text \<open>
  C8, as the code has it.  The constructor clears the task reference,
  initialises the driver, configures as an output the pin it records as the
  device's \<^verbatim>\<open>port\<close>, and records the polarity (active high).  These two
  driver calls are all it adds to the log: it writes no level to the pin,
  which keeps whatever level it had, and it registers no thread.
\<close>

theorem LED_init_effect:
  "log (LED_init G pin s) = log s @ [Init, Setcfg (port (LED_init G pin s)) 1] \<and>
   blink_thread (LED_init G pin s) = None \<and>
   active_state (LED_init G pin s) \<and> \<not> inactive_state (LED_init G pin s) \<and>
   THREADS (LED_init G pin s) = THREADS s \<and>
   writes (log (LED_init G pin s)) = writes (log s) \<and>
   level (log (LED_init G pin s)) = level (log s)"
  by (simp add: LED_init_def Let_def writes_append level_def)

text \<open>
  C8 as stated fails: constructed in a fresh interpreter for the very pin it
  configures (pin 4, \<^verbatim>\<open>port.GPIO4\<close> being 4), the device has initialised the
  driver and configured the pin, and has written no level at all, so no
  inactive level either.
\<close>

theorem LED_init_writes_nothing:
  "log (LED_init 4 (Some 4) (initial :: nat state)) = [Init, Setcfg 4 1] \<and>
   Output 4 0 \<notin> set (log (LED_init 4 (Some 4) (initial :: nat state))) \<and>
   writes (log (LED_init 4 (Some 4) (initial :: nat state))) = [] \<and>
   level (log (LED_init 4 (Some 4) (initial :: nat state))) = None"
  by (simp add: LED_init_def Let_def initial_def level_def)

text \<open>
  C9.  After a \<^verbatim>\<open>close()\<close> that returned, a second \<^verbatim>\<open>close()\<close> returns as well,
  whatever the surroundings do: it finds no task to stop, logs one more
  driver initialisation and nothing else, so it writes nothing to the pin.
\<close>

theorem close_twice:
  assumes "close e s = Some (Return s1)"
  shows "blink_thread s1 = None \<and>
         close e' s1 = Some (Return (s1\<lparr>log := log s1 @ [Init]\<rparr>)) \<and>
         writes (log s1 @ [Init]) = writes (log s1)"
proof -
  from assms obtain s0 where s0: "stop_blink e s = Some (Return s0)"
    and s1: "s1 = s0\<lparr>log := log s0 @ [Init]\<rparr>"
    by (auto simp: close_def andthen_def split: option.splits outcome.splits)
  have b: "blink_thread s1 = None" using stop_blink_Return(1) [OF s0] s1 by simp
  then have "stop_blink e' s1 = Some (Return s1)" by (rule stop_blink_idle)
  then have "close e' s1 = Some (Return (s1\<lparr>log := log s1 @ [Init]\<rparr>))"
    by (simp add: close_def andthen_def)
  with b show ?thesis by (simp add: writes_append)
qed

lemma stop_quiet_blinking_led:
  "\<exists>s'. stop 0 (Some 10) quiet blinking_led = Some (Return s') \<and>
        log s' = [Init, Setcfg 4 1, Started 0, Output 4 1, Wait 1, Confirmed 0]"
proof -
  have r: "run_target s ((heap blinking_led 0)\<lparr>stopping := True\<rparr>) quiet
             = Some [Output (port s) 1, Wait 1]" for s :: "nat state"
    using run_target_stopping [of "(heap blinking_led 0)\<lparr>stopping := True\<rparr>" 1 1 "Some 2" s quiet]
    by (simp add: blinking_led_simps quiet_def cycles_def)
  show ?thesis
    by (simp add: stop_def join_def super_join_def andthen_def Let_def r finish_def
          blinking_led_simps)
       (simp add: quiet_def)
qed

theorem close_twice_witness:
  "\<exists>s1. close quiet blinking_led = Some (Return s1) \<and>
        log s1 = [Init, Setcfg 4 1, Started 0, Output 4 1, Wait 1, Confirmed 0, Init] \<and>
        blink_thread s1 = None \<and>
        close stuck s1 = Some (Return (s1\<lparr>log := log s1 @ [Init]\<rparr>))"
proof -
  from stop_quiet_blinking_led obtain s' where
    s': "stop 0 (Some 10) quiet blinking_led = Some (Return s')"
    and l: "log s' = [Init, Setcfg 4 1, Started 0, Output 4 1, Wait 1, Confirmed 0]" by blast
  let ?s1 = "s'\<lparr>blink_thread := None, log := log s' @ [Init]\<rparr>"
  have c: "close quiet blinking_led = Some (Return ?s1)"
    using s' by (simp add: close_def stop_blink_def andthen_def blinking_led_simps)
  from close_twice [OF c, of stuck] c l show ?thesis by simp
qed

section \<open>Blinking\<close>

lemma level_append:
  "level (xs @ ys) = (if writes ys = [] then level xs else level ys)"
  by (simp add: level_def writes_append)

lemma blink_after_stop:
  assumes "stop_blink e s = Some (Return s1)"
  shows "blink a b n bg e s =
     (let tid = next_tid s;
          s4 = s1\<lparr>next_tid := tid + 1,
                  blink_thread := Some tid,
                  THREADS := insert tid (THREADS s1),
                  log := log s1 @ [Started tid],
                  heap := (heap s1)(tid :=
                    \<lparr>stopping = False, started = True, alive = True,
                     target_args = (a, b, n), daemon = True\<rparr>)\<rparr>
      in if bg then Some (Return s4)
         else andthen (join tid None e s4) (\<lambda>s5. Some (Return (s5\<lparr>blink_thread := None\<rparr>))))"
  using assms stop_blink_Return(3) [OF assms]
  by (simp add: blink_def andthen_def GPIOThread_init_def start_def super_start_def Let_def)

lemma blink_background:
  assumes "stop_blink e s = Some (Return s1)"
  shows "\<exists>s'. blink a b n True e s = Some (Return s') \<and>
           blink_thread s' = Some (next_tid s) \<and>
           log s' = log s1 @ [Started (next_tid s)] \<and>
           THREADS s' = insert (next_tid s) (THREADS s1) \<and>
           started (heap s' (next_tid s)) \<and> alive (heap s' (next_tid s)) \<and>
           \<not> stopping (heap s' (next_tid s)) \<and>
           target_args (heap s' (next_tid s)) = (a, b, n)"
  by (simp add: blink_after_stop [OF assms] Let_def)

lemma blink_sync:
  assumes "stop_blink e s = Some (Return s1)"
  shows "\<exists>s'. blink a b (Some c) False e s = Some (Return s') \<and>
           blink_thread s' = None \<and>
           log s' = log s1 @ Started (next_tid s) # cycles (port s) a b (nat c)
                      @ [Confirmed (next_tid s)] \<and>
           THREADS s' = THREADS s1 - {next_tid s} \<and>
           \<not> alive (heap s' (next_tid s))"
proof -
  have r: "run_target s' \<lparr>stopping = False, started = True, alive = True,
                 target_args = (a, b, Some c), daemon = True\<rparr> e
             = Some (cycles (port s') a b (nat c))" for s' :: "'a state"
    by (rule run_target_running) simp_all
  show ?thesis
    by (simp add: blink_after_stop [OF assms] Let_def join_def super_join_def andthen_def
          finish_def r stop_blink_Return(2) [OF assms])
qed

lemma blink_sync_forever:
  assumes "stop_blink e s = Some (Return s1)"
  shows "blink a b None False e s = None"
proof -
  have r: "run_target s' \<lparr>stopping = False, started = True, alive = True,
                 target_args = (a, b, None), daemon = True\<rparr> e = None" for s' :: "'a state"
    by (rule run_target_forever) simp_all
  show ?thesis
    by (simp add: blink_after_stop [OF assms] Let_def join_def super_join_def andthen_def r)
qed

lemma blink_stop_raises:
  assumes "stop_blink e s = Some (Raise err s1)"
  shows "blink a b n bg e s = Some (Raise err s1)"
  using assms by (simp add: blink_def andthen_def)

lemma stop_blink_Raise_state:
  assumes "stop_blink e s = Some (Raise err s1)"
  shows "next_tid s1 = next_tid s"
        "err = ZombieThread (zombie_message 10) \<or>
         err = RuntimeError ''cannot join thread before it is started''"
proof -
  from stop_blink_Raise(1) [OF assms] obtain tid where
    "stop tid (Some 10) e s = Some (Raise err s1)" by blast
  from stop_Raise [OF this]
  show "next_tid s1 = next_tid s"
       "err = ZombieThread (zombie_message 10) \<or>
        err = RuntimeError ''cannot join thread before it is started''"
    by auto
qed

text \<open>
  C7, as the code has it.  Every \<^verbatim>\<open>blink\<close> begins with \<^verbatim>\<open>_stop_blink\<close>, which
  always comes back and returns at once when the device has no task.

  When \<^verbatim>\<open>_stop_blink\<close> returns: a \<^verbatim>\<open>blink\<close> in the background returns straight
  after the start of the new task (the log has grown by the start alone), with
  \<^verbatim>\<open>_blink_thread\<close> naming the new task, which is started, alive, registered and
  carries the arguments of the call.  A \<^verbatim>\<open>blink\<close> in the foreground with a
  number for \<^verbatim>\<open>n\<close> returns after the task has run all its rounds and was found
  dead by the join, with \<^verbatim>\<open>_blink_thread\<close> cleared and the task out of
  \<^verbatim>\<open>_THREADS\<close>.  In the foreground with \<^verbatim>\<open>n = None\<close> the call never returns.

  When \<^verbatim>\<open>_stop_blink\<close> raises (the former task did not die within its ten
  seconds, or was never started), \<^verbatim>\<open>blink\<close> raises the same error whatever its
  arguments: no new task has been created or started, \<^verbatim>\<open>_blink_thread\<close> still
  names the former task, and \<^verbatim>\<open>_THREADS\<close> and the log are as before the call.
\<close>

theorem blink_postcondition:
  "(blink_thread s = None \<longrightarrow> stop_blink e s = Some (Return s)) \<and>
   (case stop_blink e s of
      None \<Rightarrow> False
    | Some (Return s1) \<Rightarrow>
        (\<exists>s'. blink a b n True e s = Some (Return s') \<and>
            blink_thread s' = Some (next_tid s) \<and>
            log s' = log s1 @ [Started (next_tid s)] \<and>
            next_tid s \<in> THREADS s' \<and>
            started (heap s' (next_tid s)) \<and> alive (heap s' (next_tid s)) \<and>
            target_args (heap s' (next_tid s)) = (a, b, n)) \<and>
        (\<exists>s'. blink a b (Some c) False e s = Some (Return s') \<and>
            blink_thread s' = None \<and>
            log s' = log s1 @ Started (next_tid s) # cycles (port s) a b (nat c)
                       @ [Confirmed (next_tid s)] \<and>
            next_tid s \<notin> THREADS s' \<and>
            \<not> alive (heap s' (next_tid s))) \<and>
        blink a b None False e s = None
    | Some (Raise err s1) \<Rightarrow>
        blink a b n bg e s = Some (Raise err s1) \<and>
        (err = ZombieThread (zombie_message 10) \<or>
         err = RuntimeError ''cannot join thread before it is started'') \<and>
        blink_thread s \<noteq> None \<and> blink_thread s1 = blink_thread s \<and>
        next_tid s1 = next_tid s \<and> THREADS s1 = THREADS s \<and> log s1 = log s)"
proof (cases "stop_blink e s")
  case None
  with stop_blink_total [of e s] show ?thesis by simp
next
  case (Some r)
  show ?thesis
  proof (cases r)
    case (Return s1)
    with Some have h: "stop_blink e s = Some (Return s1)" by simp
    have idle: "blink_thread s = None \<longrightarrow> s1 = s"
      using stop_blink_Return(4) [OF h] by simp
    from blink_background [OF h, of a b n]
    have bgr: "\<exists>s'. blink a b n True e s = Some (Return s') \<and>
            blink_thread s' = Some (next_tid s) \<and>
            log s' = log s1 @ [Started (next_tid s)] \<and>
            next_tid s \<in> THREADS s' \<and>
            started (heap s' (next_tid s)) \<and> alive (heap s' (next_tid s)) \<and>
            target_args (heap s' (next_tid s)) = (a, b, n)"
      by auto
    from blink_sync [OF h, of a b c]
    have fgr: "\<exists>s'. blink a b (Some c) False e s = Some (Return s') \<and>
            blink_thread s' = None \<and>
            log s' = log s1 @ Started (next_tid s) # cycles (port s) a b (nat c)
                       @ [Confirmed (next_tid s)] \<and>
            next_tid s \<notin> THREADS s' \<and>
            \<not> alive (heap s' (next_tid s))"
      by auto
    note nvr = blink_sync_forever [OF h, of a b]
    from idle bgr fgr nvr show ?thesis unfolding h by simp
  next
    case (Raise err s1)
    with Some have h: "stop_blink e s = Some (Raise err s1)" by simp
    from stop_blink_Raise(1) [OF h] have busy: "blink_thread s \<noteq> None" by auto
    note k = blink_stop_raises [OF h, of a b n bg] stop_blink_Raise_state [OF h]
             stop_blink_Raise(2,3,4) [OF h]
    from busy k show ?thesis unfolding h by simp
  qed
qed

theorem blink_postcondition_witness:
  "stop_blink quiet fresh_led = Some (Return fresh_led) \<and>
   (\<exists>s'. blink 1 2 (Some 3) True quiet fresh_led = Some (Return s') \<and>
      blink_thread s' = Some 0 \<and> log s' = [Init, Setcfg 4 1, Started 0]) \<and>
   (\<exists>s'. blink 1 2 (Some 3) False quiet fresh_led = Some (Return s') \<and>
      blink_thread s' = None \<and>
      log s' = [Init, Setcfg 4 1, Started 0,
                Output 4 1, Wait 1, Output 4 0, Wait 2,
                Output 4 1, Wait 1, Output 4 0, Wait 2,
                Output 4 1, Wait 1, Output 4 0, Wait 2, Confirmed 0]) \<and>
   raised (blink 3 4 (Some 5) False stuck blinking_led) = Some (ZombieThread (zombie_message 10)) \<and>
   map_option blink_thread (after (blink 3 4 (Some 5) False stuck blinking_led)) = Some (Some 0) \<and>
   map_option log (after (blink 3 4 (Some 5) False stuck blinking_led)) = Some [Init, Setcfg 4 1, Started 0]"
proof -
  note t = blink_postcondition [where s = fresh_led and e = quiet and a = 1 and b = 2
                                  and n = "Some 3" and c = 3]
  from t have h: "stop_blink quiet fresh_led = Some (Return fresh_led)"
    by (simp add: fresh_led_simps)
  have c: "cycles 4 (1::nat) 2 (nat 3) =
      [Output 4 1, Wait 1, Output 4 0, Wait 2,
       Output 4 1, Wait 1, Output 4 0, Wait 2,
       Output 4 1, Wait 1, Output 4 0, Wait 2]"
    by (simp add: cycles_def cycle_def eval_nat_numeral)
  from t have p: "(\<exists>s'. blink 1 2 (Some 3) True quiet fresh_led = Some (Return s') \<and>
      blink_thread s' = Some 0 \<and> log s' = [Init, Setcfg 4 1, Started 0]) \<and>
   (\<exists>s'. blink 1 2 (Some 3) False quiet fresh_led = Some (Return s') \<and>
      blink_thread s' = None \<and>
      log s' = [Init, Setcfg 4 1, Started 0,
                Output 4 1, Wait 1, Output 4 0, Wait 2,
                Output 4 1, Wait 1, Output 4 0, Wait 2,
                Output 4 1, Wait 1, Output 4 0, Wait 2, Confirmed 0])"
    unfolding h using c by (simp add: fresh_led_simps) blast
  note u = blink_postcondition [where s = blinking_led and e = stuck and a = 3 and b = 4
                                  and n = "Some 5" and bg = False]
  have q: "raised (blink 3 4 (Some 5) False stuck blinking_led) = Some (ZombieThread (zombie_message 10)) \<and>
   map_option blink_thread (after (blink 3 4 (Some 5) False stuck blinking_led)) = Some (Some 0) \<and>
   map_option log (after (blink 3 4 (Some 5) False stuck blinking_led)) = Some [Init, Setcfg 4 1, Started 0]"
  proof (cases "stop_blink stuck blinking_led")
    case None
    with u show ?thesis by simp
  next
    case (Some r)
    have "raised (stop_blink stuck blinking_led) = Some (ZombieThread (zombie_message 10))"
      by (simp add: stop_blink_def stop_def join_def super_join_def andthen_def Let_def stuck_def
            blinking_led_simps)
    with Some obtain s1 where "r = Raise (ZombieThread (zombie_message 10)) s1"
      by (cases r) simp_all
    with Some u show ?thesis by (simp add: blinking_led_simps)
  qed
  from h p q show ?thesis by blast
qed

text \<open>
  C7 as stated fails: with a task in the background that does not die within
  the ten seconds of \<^verbatim>\<open>_stop_blink\<close>, \<^verbatim>\<open>blink()\<close> with its default arguments does
  not return but raises \<^verbatim>\<open>ZombieThread\<close>; no new task has been created or
  started, and \<^verbatim>\<open>_blink_thread\<close> still names task 0.
\<close>

theorem blink_zombie_keeps_old_task:
  "raised (blink 1 1 None True stuck blinking_led) = Some (ZombieThread (zombie_message 10)) \<and>
   map_option blink_thread (after (blink 1 1 None True stuck blinking_led)) = Some (Some 0) \<and>
   map_option next_tid (after (blink 1 1 None True stuck blinking_led)) = Some 1 \<and>
   map_option THREADS (after (blink 1 1 None True stuck blinking_led)) = Some {0} \<and>
   map_option log (after (blink 1 1 None True stuck blinking_led)) = Some [Init, Setcfg 4 1, Started 0]"
proof -
  have "stop_blink stuck blinking_led =
          Some (Raise (ZombieThread (zombie_message 10))
            (blinking_led\<lparr>heap := (heap blinking_led)(0 := (heap blinking_led 0)\<lparr>stopping := True\<rparr>)\<rparr>))"
    by (simp add: stop_blink_def stop_def join_def super_join_def andthen_def Let_def stuck_def
          blinking_led_simps)
  then show ?thesis
    by (simp add: blink_def andthen_def blinking_led_simps)
qed

lemma rounds_last:
  "0 < k \<Longrightarrow> concat (replicate k [1, 0 :: nat]) \<noteq> [] \<and> last (concat (replicate k [1, 0 :: nat])) = 0"
proof (cases k)
  case 0
  assume "0 < k"
  with 0 show ?thesis by simp
next
  case (Suc j)
  have "replicate (Suc j) [1, 0 :: nat] = replicate j [1, 0] @ [[1, 0]]"
    by (simp add: replicate_append_same)
  then have "concat (replicate (Suc j) [1, 0 :: nat]) = concat (replicate j [1, 0]) @ [1, 0]"
    by (simp only: concat_append) simp
  with Suc show ?thesis by simp
qed

lemma lit_led_simps:
  "blink_thread lit_led = None" "port lit_led = 4" "next_tid lit_led = 0"
  "log lit_led = [Init, Setcfg 4 1, Output 4 1]"
proof -
  have "stop_blink quiet fresh_led = Some (Return fresh_led)"
    by (rule stop_blink_idle) (simp add: fresh_led_simps)
  then have eq: "lit_led = LED_write True fresh_led"
    by (simp add: lit_led_def on_def andthen_def)
  show "blink_thread lit_led = None" "port lit_led = 4" "next_tid lit_led = 0"
    "log lit_led = [Init, Setcfg 4 1, Output 4 1]"
    unfolding eq by (simp_all add: LED_write_def write_ev_def fresh_led_simps)
qed

text \<open>
  C4, as the code has it.  Once the previous task is out of the way, a
  foreground \<^verbatim>\<open>blink\<close> with a number \<open>c\<close> for \<^verbatim>\<open>n\<close> returns, and the levels it has
  written are exactly \<open>c\<close> times 1 then 0 (nothing for \<open>c \<le> 0\<close>), whatever the
  two durations are.  For \<open>c \<ge> 1\<close> the pin is left at 0; for \<open>c \<le> 0\<close> nothing
  is written and the pin keeps the level it had.
\<close>

theorem sync_blink_writes:
  assumes "stop_blink e s = Some (Return s1)"
  shows "\<exists>s'. blink a b (Some c) False e s = Some (Return s') \<and>
           writes (log s') = writes (log s1) @ concat (replicate (nat c) [1, 0]) \<and>
           (0 < c \<longrightarrow> level (log s') = Some 0) \<and>
           (c \<le> 0 \<longrightarrow> level (log s') = level (log s1))"
proof -
  from blink_sync [OF assms, of a b c] obtain s' where
    b: "blink a b (Some c) False e s = Some (Return s')"
    and l: "log s' = log s1 @ Started (next_tid s) # cycles (port s) a b (nat c)
                       @ [Confirmed (next_tid s)]" by blast
  have w: "writes (log s') = writes (log s1) @ concat (replicate (nat c) [1, 0])"
    by (simp add: l writes_append writes_cycles)
  have pos: "level (log s') = Some 0" if "0 < c"
  proof -
    from that have "0 < nat c" by simp
    from rounds_last [OF this] show ?thesis by (simp add: level_def w)
  qed
  have zero: "level (log s') = level (log s1)" if "c \<le> 0"
    using that by (simp add: level_def w)
  from b w pos zero show ?thesis by blast
qed

theorem sync_blink_writes_witness:
  "stop_blink quiet lit_led = Some (Return lit_led) \<and>
   (\<exists>s'. blink 1 1 (Some 3) False quiet lit_led = Some (Return s') \<and>
      writes (log s') = [1, 1, 0, 1, 0, 1, 0] \<and> level (log s') = Some 0)"
proof -
  have h: "stop_blink quiet lit_led = Some (Return lit_led)"
    by (rule stop_blink_idle) (simp add: lit_led_simps)
  have c: "concat (replicate (nat 3) [1, 0 :: nat]) = [1, 0, 1, 0, 1, 0]"
    by (simp add: eval_nat_numeral)
  from sync_blink_writes [OF h, of 1 1 3] h c show ?thesis
    by (auto simp: lit_led_simps)
qed

text \<open>
  C4 as stated fails for a count of zero: on a device that \<^verbatim>\<open>on()\<close> has
  switched on, \<^verbatim>\<open>blink(1, 1, 0, False)\<close> returns without a write and the pin is
  still at 1.
\<close>

theorem sync_blink_zero_stays_lit:
  "raised (blink 1 1 (Some 0) False quiet lit_led) = None \<and>
   map_option (writes \<circ> log) (after (blink 1 1 (Some 0) False quiet lit_led)) = Some [1] \<and>
   map_option (level \<circ> log) (after (blink 1 1 (Some 0) False quiet lit_led)) = Some (Some 1)"
proof -
  have h: "stop_blink quiet lit_led = Some (Return lit_led)"
    by (rule stop_blink_idle) (simp add: lit_led_simps)
  from blink_sync [OF h, of 1 1 0] obtain s' where
    b: "blink 1 1 (Some 0) False quiet lit_led = Some (Return s')"
    and l: "log s' = log lit_led @ Started (next_tid lit_led) # cycles (port lit_led) 1 1 (nat 0)
                       @ [Confirmed (next_tid lit_led)]" by blast
  from b l show ?thesis by (simp add: lit_led_simps cycles_def level_def)
qed

text \<open>
  C6.  \<^verbatim>\<open>on\<close>, \<^verbatim>\<open>off\<close> and \<^verbatim>\<open>close\<close> are \<^verbatim>\<open>_stop_blink\<close> followed, only when that
  returned, by one driver call entered last in the log: the write of 1, the
  write of 0, the driver initialisation.  A \<^verbatim>\<open>blink\<close> that returns has done
  \<^verbatim>\<open>_stop_blink\<close> first and started its task after it; a \<^verbatim>\<open>blink\<close> that raises
  has raised from \<^verbatim>\<open>_stop_blink\<close>.  When \<^verbatim>\<open>_stop_blink\<close> returns, the former task
  (if any) is dead, out of \<^verbatim>\<open>_THREADS\<close>, and its end is the last entry of the
  log; when it raises, nothing has been added to the log.
\<close>

theorem stop_comes_first:
  "on e s = andthen (stop_blink e s)
              (\<lambda>s1. Some (Return (s1\<lparr>log := log s1 @ [Output (port s) 1]\<rparr>))) \<and>
   off e s = andthen (stop_blink e s)
              (\<lambda>s1. Some (Return (s1\<lparr>log := log s1 @ [Output (port s) 0]\<rparr>))) \<and>
   close e s = andthen (stop_blink e s)
              (\<lambda>s1. Some (Return (s1\<lparr>log := log s1 @ [Init]\<rparr>))) \<and>
   (\<forall>s'. blink a b n bg e s = Some (Return s') \<longrightarrow>
      (\<exists>s1 rest. stop_blink e s = Some (Return s1) \<and>
                 log s' = log s1 @ Started (next_tid s) # rest)) \<and>
   (\<forall>err s'. blink a b n bg e s = Some (Raise err s') \<longrightarrow>
      stop_blink e s = Some (Raise err s')) \<and>
   (\<forall>s1. stop_blink e s = Some (Return s1) \<longrightarrow>
      blink_thread s1 = None \<and>
      (\<forall>tid. blink_thread s = Some tid \<longrightarrow>
         \<not> alive (heap s1 tid) \<and> tid \<notin> THREADS s1 \<and>
         (\<exists>evs. log s1 = log s @ evs @ [Confirmed tid]))) \<and>
   (\<forall>err s1. stop_blink e s = Some (Raise err s1) \<longrightarrow> log s1 = log s)"
proof -
  have p: "port s1 = port s" if "stop_blink e s = Some (Return s1)" for s1
    using stop_blink_Return(2) [OF that] .
  have c1: "on e s = andthen (stop_blink e s)
              (\<lambda>s1. Some (Return (s1\<lparr>log := log s1 @ [Output (port s) 1]\<rparr>)))"
    using p by (auto simp: on_def andthen_def LED_write_def write_ev_def
                     split: option.splits outcome.splits)
  have c2: "off e s = andthen (stop_blink e s)
              (\<lambda>s1. Some (Return (s1\<lparr>log := log s1 @ [Output (port s) 0]\<rparr>)))"
    using p by (auto simp: off_def andthen_def LED_write_def write_ev_def
                     split: option.splits outcome.splits)
  have c3: "close e s = andthen (stop_blink e s)
              (\<lambda>s1. Some (Return (s1\<lparr>log := log s1 @ [Init]\<rparr>)))"
    by (simp add: close_def)
  have c4: "\<exists>s1 rest. stop_blink e s = Some (Return s1) \<and>
                 log s' = log s1 @ Started (next_tid s) # rest"
    if b: "blink a b n bg e s = Some (Return s')" for s'
  proof (cases "stop_blink e s")
    case None
    with b show ?thesis by (simp add: blink_def andthen_def)
  next
    case (Some r)
    show ?thesis
    proof (cases r)
      case (Raise err s1)
      with Some b show ?thesis by (simp add: blink_def andthen_def)
    next
      case (Return s1)
      with Some have h: "stop_blink e s = Some (Return s1)" by simp
      show ?thesis
      proof (cases bg)
        case True
        from blink_background [OF h, of a b n] b True h show ?thesis by auto
      next
        case False
        show ?thesis
        proof (cases n)
          case None
          from blink_sync_forever [OF h, of a b] b False None show ?thesis by simp
        next
          case (Some c)
          from blink_sync [OF h, of a b c] b False Some h show ?thesis by auto
        qed
      qed
    qed
  qed
  have c5: "stop_blink e s = Some (Raise err s')"
    if b: "blink a b n bg e s = Some (Raise err s')" for err s'
  proof (cases "stop_blink e s")
    case None
    with b show ?thesis by (simp add: blink_def andthen_def)
  next
    case (Some r)
    show ?thesis
    proof (cases r)
      case (Raise err1 s1)
      with Some b show ?thesis by (simp add: blink_def andthen_def)
    next
      case (Return s1)
      with Some have h: "stop_blink e s = Some (Return s1)" by simp
      show ?thesis
      proof (cases bg)
        case True
        from blink_background [OF h, of a b n] b True show ?thesis by auto
      next
        case False
        show ?thesis
        proof (cases n)
          case None
          from blink_sync_forever [OF h, of a b] b False None show ?thesis by simp
        next
          case (Some c)
          from blink_sync [OF h, of a b c] b False Some show ?thesis by auto
        qed
      qed
    qed
  qed
  have c6: "blink_thread s1 = None \<and>
      (\<forall>tid. blink_thread s = Some tid \<longrightarrow>
         \<not> alive (heap s1 tid) \<and> tid \<notin> THREADS s1 \<and>
         (\<exists>evs. log s1 = log s @ evs @ [Confirmed tid]))"
    if h: "stop_blink e s = Some (Return s1)" for s1
    using stop_blink_Return(1) [OF h] stop_blink_Return(5) [OF h] by auto
  have c7: "log s1 = log s" if "stop_blink e s = Some (Raise err s1)" for err s1
    using stop_blink_Raise(4) [OF that] .
  from c1 c2 c3 c4 c5 c6 c7 show ?thesis by blast
qed

theorem stop_comes_first_witness:
  "(\<exists>s1. stop_blink quiet blinking_led = Some (Return s1) \<and>
         blink_thread s1 = None \<and> \<not> alive (heap s1 0) \<and> 0 \<notin> THREADS s1) \<and>
   (\<exists>s'. on quiet blinking_led = Some (Return s') \<and>
         log s' = [Init, Setcfg 4 1, Started 0, Output 4 1, Wait 1, Confirmed 0, Output 4 1]) \<and>
   raised (on stuck blinking_led) = Some (ZombieThread (zombie_message 10)) \<and>
   map_option log (after (on stuck blinking_led)) = Some [Init, Setcfg 4 1, Started 0]"
proof -
  from stop_quiet_blinking_led obtain s0 where
    s0: "stop 0 (Some 10) quiet blinking_led = Some (Return s0)"
    and l: "log s0 = [Init, Setcfg 4 1, Started 0, Output 4 1, Wait 1, Confirmed 0]" by blast
  have q: "stop_blink quiet blinking_led = Some (Return (s0\<lparr>blink_thread := None\<rparr>))"
    using s0 by (simp add: stop_blink_def andthen_def blinking_led_simps)
  have z: "stop_blink stuck blinking_led =
          Some (Raise (ZombieThread (zombie_message 10))
            (blinking_led\<lparr>heap := (heap blinking_led)(0 := (heap blinking_led 0)\<lparr>stopping := True\<rparr>)\<rparr>))"
    by (simp add: stop_blink_def stop_def join_def super_join_def andthen_def Let_def stuck_def
          blinking_led_simps)
  note a = stop_comes_first [of quiet blinking_led 1 1 None True]
  note b = stop_comes_first [of stuck blinking_led 1 1 None True]
  have a1: "blink_thread (s0\<lparr>blink_thread := None\<rparr>) = None \<and>
            \<not> alive (heap (s0\<lparr>blink_thread := None\<rparr>) 0) \<and>
            0 \<notin> THREADS (s0\<lparr>blink_thread := None\<rparr>)"
    using a q by (simp add: blinking_led_simps)
  have a2: "on quiet blinking_led =
      Some (Return (s0\<lparr>blink_thread := None, log := log s0 @ [Output 4 1]\<rparr>))"
    using a q by (simp add: andthen_def blinking_led_simps)
  have b2: "on stuck blinking_led =
          Some (Raise (ZombieThread (zombie_message 10))
            (blinking_led\<lparr>heap := (heap blinking_led)(0 := (heap blinking_led 0)\<lparr>stopping := True\<rparr>)\<rparr>))"
    using b z by (simp add: andthen_def)
  from q a1 a2 b2 l show ?thesis by (simp add: blinking_led_simps)
qed

section \<open>The registry\<close>

lemma awaited_snoc:
  "awaited u (es @ [ev]) =
     (if ev = Started u then True else if ev = Confirmed u then False else awaited u es)"
  by (simp add: awaited_def)

lemma awaited_plain:
  "(\<forall>ev\<in>set evs. ev \<noteq> Started u \<and> ev \<noteq> Confirmed u) \<Longrightarrow>
     awaited u (es @ evs) = awaited u es"
proof (induction evs rule: rev_induct)
  case Nil
  show ?case by simp
next
  case (snoc ev evs)
  have "awaited u ((es @ evs) @ [ev]) = awaited u (es @ evs)"
    using snoc.prems by (simp only: awaited_snoc) simp
  with snoc show ?case by simp
qed

lemma loop_plain:
  assumes "blink_loop p a b sig it i acc = Some r"
  shows "\<forall>ev\<in>set r. ev \<in> set acc \<or> (\<forall>u. ev \<noteq> Started u \<and> ev \<noteq> Confirmed u)"
proof (rule blink_loop.raw_induct
        [where P = "\<lambda>p a b sig it i acc r.
            \<forall>ev\<in>set r. ev \<in> set acc \<or> (\<forall>u. ev \<noteq> Started u \<and> ev \<noteq> Confirmed u)",
         OF _ assms], goal_cases)
  case (1 f p a b sig it i acc r)
  show ?case
  proof (cases "exhausted it \<or> sig i \<or> sig (i + 1)")
    case True
    with 1(2) show ?thesis by (auto simp: Let_def write_ev_def split: if_splits)
  next
    case False
    with 1(2) have "f p a b sig (advance it) (i + 2)
        (acc @ [write_ev p True, Wait a] @ [write_ev p False, Wait b]) = Some r"
      by (simp add: Let_def)
    from 1(1) [OF this] show ?thesis by (auto simp: write_ev_def)
  qed
qed

lemma run_target_plain:
  assumes "run_target s th e = Some evs"
  shows "\<forall>ev\<in>set evs. ev \<noteq> Started u \<and> ev \<noteq> Confirmed u"
proof -
  obtain a b n where t: "target_args th = (a, b, n)" by (cases "target_args th") auto
  with assms have "blink_loop (port s) a b (signal th e) (repeat_iter n) 0 [] = Some evs"
    by (simp add: run_target_def blink_device_def)
  from loop_plain [OF this] show ?thesis by simp
qed

lemma super_join_registry:
  assumes "super_join tid timeout e s = Some r"
  shows "THREADS (final r) = THREADS s" "awaited u (log (final r)) = awaited u (log s)"
proof -
  have "THREADS (final r) = THREADS s \<and> awaited u (log (final r)) = awaited u (log s)"
  proof (cases "run_target s (heap s tid) e")
    case None
    with assms show ?thesis
      by (auto simp: super_join_def Let_def split: if_splits option.splits)
  next
    case (Some evs)
    from run_target_plain [OF Some, of u]
    have "awaited u (log s @ evs) = awaited u (log s)" by (rule awaited_plain)
    with Some assms show ?thesis
      by (auto simp: super_join_def Let_def finish_def split: if_splits option.splits)
  qed
  then show "THREADS (final r) = THREADS s" "awaited u (log (final r)) = awaited u (log s)"
    by simp_all
qed

lemma join_shape:
  assumes "join tid timeout e s = Some r"
  shows "\<exists>s0. THREADS s0 = THREADS s \<and> (\<forall>u. awaited u (log s0) = awaited u (log s)) \<and>
           ((\<exists>err. r = Raise err s0) \<or>
            r = Return (s0\<lparr>THREADS := THREADS s0 - {tid}, log := log s0 @ [Confirmed tid]\<rparr>))"
proof (cases "super_join tid timeout e s")
  case None
  with assms show ?thesis by (simp add: join_def andthen_def)
next
  case (Some r0)
  note sj = super_join_registry [OF Some]
  show ?thesis
  proof (cases r0)
    case (Raise err s0)
    with Some assms have "r = Raise err s0" by (simp add: join_def andthen_def)
    with sj Raise show ?thesis by auto
  next
    case (Return s0)
    with sj have k: "THREADS s0 = THREADS s" "\<forall>u. awaited u (log s0) = awaited u (log s)"
      by simp_all
    show ?thesis
    proof (cases "alive (heap s0 tid)")
      case True
      with Some Return assms have "\<exists>err. r = Raise err s0"
        by (cases timeout) (auto simp: join_def andthen_def)
      with k show ?thesis by blast
    next
      case False
      with Some Return assms
      have "r = Return (s0\<lparr>THREADS := THREADS s0 - {tid}, log := log s0 @ [Confirmed tid]\<rparr>)"
        by (simp add: join_def andthen_def)
      with k show ?thesis by blast
    qed
  qed
qed

lemma join_registry:
  assumes "join tid timeout e s = Some r"
  shows "(u \<in> THREADS s \<longleftrightarrow> awaited u (log s)) \<Longrightarrow>
           (u \<in> THREADS (final r) \<longleftrightarrow> awaited u (log (final r)))"
    and "r = Return s' \<Longrightarrow> THREADS s' = THREADS s - {tid}"
    and "r = Raise err s' \<Longrightarrow> THREADS s' = THREADS s"
proof -
  from join_shape [OF assms] obtain s0 where
    t: "THREADS s0 = THREADS s" and a: "awaited u (log s0) = awaited u (log s)"
    and c: "(\<exists>err. r = Raise err s0) \<or>
            r = Return (s0\<lparr>THREADS := THREADS s0 - {tid}, log := log s0 @ [Confirmed tid]\<rparr>)"
    by blast
  show "u \<in> THREADS (final r) \<longleftrightarrow> awaited u (log (final r))"
    if inv: "u \<in> THREADS s \<longleftrightarrow> awaited u (log s)"
    using c
  proof
    assume "\<exists>err. r = Raise err s0"
    then obtain err where "r = Raise err s0" ..
    with t a inv show ?thesis by simp
  next
    assume "r = Return (s0\<lparr>THREADS := THREADS s0 - {tid}, log := log s0 @ [Confirmed tid]\<rparr>)"
    with t a inv show ?thesis by (cases "u = tid") (simp_all add: awaited_snoc)
  qed
  show "r = Return s' \<Longrightarrow> THREADS s' = THREADS s - {tid}" using c t by auto
  show "r = Raise err s' \<Longrightarrow> THREADS s' = THREADS s" using c t by auto
qed

lemma start_registry:
  "THREADS (final (start tid s)) = insert tid (THREADS s)"
  "log (final (start tid s)) = log s @ [Started tid]"
  by (simp_all add: start_def super_start_def Let_def)

lemma joined_led_simps:
  "THREADS joined_led = {}"
  "log joined_led = [Init, Setcfg 4 1, Started 0, Output 4 1, Wait 1, Output 4 0, Wait 1,
                     Output 4 1, Wait 1, Output 4 0, Wait 1, Confirmed 0]"
  "started (heap joined_led 0)" "\<not> alive (heap joined_led 0)"
proof -
  have r: "run_target s (heap blinking_led 0) quiet = Some (cycles (port s) 1 1 (nat 2))"
    for s :: "nat state"
    by (rule run_target_running) (simp_all add: blinking_led_simps)
  have c: "cycles 4 (1::nat) 1 (nat 2) =
      [Output 4 1, Wait 1, Output 4 0, Wait 1, Output 4 1, Wait 1, Output 4 0, Wait 1]"
    by (simp add: cycles_def cycle_def eval_nat_numeral)
  have j: "join 0 None quiet blinking_led =
      Some (Return (blinking_led\<lparr>THREADS := {},
         log := [Init, Setcfg 4 1, Started 0, Output 4 1, Wait 1, Output 4 0, Wait 1,
                     Output 4 1, Wait 1, Output 4 0, Wait 1, Confirmed 0],
         heap := (heap blinking_led)(0 := (heap blinking_led 0)\<lparr>alive := False\<rparr>)\<rparr>))"
    using c by (simp add: join_def super_join_def andthen_def Let_def r finish_def blinking_led_simps)
  show "THREADS joined_led = {}"
    "log joined_led = [Init, Setcfg 4 1, Started 0, Output 4 1, Wait 1, Output 4 0, Wait 1,
                     Output 4 1, Wait 1, Output 4 0, Wait 1, Confirmed 0]"
    "started (heap joined_led 0)" "\<not> alive (heap joined_led 0)"
    by (simp_all add: joined_led_def j blinking_led_simps)
qed

text \<open>
  C3, as the code has it.  A thread is in \<^verbatim>\<open>_THREADS\<close> exactly when \<^verbatim>\<open>start\<close> has
  been called on it and no join has found it dead since the latest such call.
  This holds in a fresh interpreter and is kept by \<^verbatim>\<open>start\<close>, by \<^verbatim>\<open>join\<close> and
  by \<^verbatim>\<open>stop\<close>, whether they return or raise; creating a thread object touches
  neither the set nor the record of calls.  \<^verbatim>\<open>start\<close> adds exactly its thread
  (also when \<^verbatim>\<open>Thread.start\<close> then refuses it), a join that returns removes
  exactly its thread, and a join that raises (the thread still alive after the
  timeout, or never started) leaves the set as it was.
\<close>

theorem registry_invariant:
  assumes "u \<in> THREADS (s :: 'a state) \<longleftrightarrow> awaited u (log s)"
  shows "(u \<in> THREADS (final (start tid s)) \<longleftrightarrow> awaited u (log (final (start tid s)))) \<and>
         THREADS (final (start tid s)) = insert tid (THREADS s) \<and>
         (\<forall>r. join tid timeout e s = Some r \<longrightarrow>
            (u \<in> THREADS (final r) \<longleftrightarrow> awaited u (log (final r)))) \<and>
         (\<forall>r. stop tid timeout e s = Some r \<longrightarrow>
            (u \<in> THREADS (final r) \<longleftrightarrow> awaited u (log (final r)))) \<and>
         (\<forall>s'. join tid timeout e s = Some (Return s') \<longrightarrow> THREADS s' = THREADS s - {tid}) \<and>
         (\<forall>err s'. join tid timeout e s = Some (Raise err s') \<longrightarrow> THREADS s' = THREADS s) \<and>
         THREADS (snd (GPIOThread_init args s)) = THREADS s \<and>
         log (snd (GPIOThread_init args s)) = log s \<and>
         (u \<in> THREADS (initial :: 'a state) \<longleftrightarrow> awaited u (log (initial :: 'a state)))"
proof -
  have c1: "u \<in> THREADS (final (start tid s)) \<longleftrightarrow> awaited u (log (final (start tid s)))"
    using assms by (cases "u = tid") (simp_all add: start_registry awaited_snoc)
  have c2: "THREADS (final (start tid s)) = insert tid (THREADS s)"
    by (rule start_registry(1))
  have c3: "u \<in> THREADS (final r) \<longleftrightarrow> awaited u (log (final r))"
    if "join tid timeout e s = Some r" for r
    using join_registry(1) [OF that assms] .
  have c4: "u \<in> THREADS (final r) \<longleftrightarrow> awaited u (log (final r))"
    if h: "stop tid timeout e s = Some r" for r
  proof -
    let ?s1 = "s\<lparr>heap := (heap s)(tid := (heap s tid)\<lparr>stopping := True\<rparr>)\<rparr>"
    from h have j: "join tid timeout e ?s1 = Some r" by (simp add: stop_def Let_def)
    from assms have "u \<in> THREADS ?s1 \<longleftrightarrow> awaited u (log ?s1)" by simp
    from join_registry(1) [OF j this] show ?thesis .
  qed
  have c5: "THREADS s' = THREADS s - {tid}"
    if "join tid timeout e s = Some (Return s')" for s'
    using join_registry(2) [OF that refl] .
  have c6: "THREADS s' = THREADS s"
    if "join tid timeout e s = Some (Raise err s')" for err s'
    using join_registry(3) [OF that refl] .
  have c7: "THREADS (snd (GPIOThread_init args s)) = THREADS s"
           "log (snd (GPIOThread_init args s)) = log s"
    by (simp_all add: GPIOThread_init_def Let_def)
  have c8: "u \<in> THREADS (initial :: 'a state) \<longleftrightarrow> awaited u (log (initial :: 'a state))"
    by (simp add: initial_def awaited_def)
  from c1 c2 c3 c4 c5 c6 c7 c8 show ?thesis by blast
qed

theorem registry_invariant_witness:
  "(0 \<in> THREADS blinking_led \<longleftrightarrow> awaited 0 (log blinking_led)) \<and>
   0 \<in> THREADS blinking_led \<and>
   raised (join 0 (Some 3) stuck blinking_led) = Some (ZombieThread (zombie_message 3)) \<and>
   map_option THREADS (after (join 0 (Some 3) stuck blinking_led)) = Some {0} \<and>
   after (join 0 None quiet blinking_led) = Some joined_led \<and>
   0 \<notin> THREADS joined_led \<and> \<not> awaited 0 (log joined_led) \<and>
   THREADS (final (start 0 joined_led)) = {0} \<and>
   awaited 0 (log (final (start 0 joined_led)))"
proof -
  have h1: "0 \<in> THREADS blinking_led \<longleftrightarrow> awaited 0 (log blinking_led)"
    by (simp add: blinking_led_simps awaited_def)
  have h2: "0 \<in> THREADS joined_led \<longleftrightarrow> awaited 0 (log joined_led)"
    by (simp add: joined_led_simps awaited_def)
  have z: "join 0 (Some 3) stuck blinking_led =
      Some (Raise (ZombieThread (zombie_message 3)) blinking_led)"
    by (simp add: join_def super_join_def andthen_def Let_def stuck_def blinking_led_simps)
  have r: "run_target s (heap blinking_led 0) quiet = Some (cycles (port s) 1 1 (nat 2))"
    for s :: "nat state"
    by (rule run_target_running) (simp_all add: blinking_led_simps)
  have "\<exists>r. join 0 None quiet blinking_led = Some (Return r)"
    by (simp add: join_def super_join_def andthen_def Let_def r finish_def blinking_led_simps)
  then have j: "after (join 0 None quiet blinking_led) = Some joined_led"
    by (auto simp: joined_led_def)
  note a = registry_invariant [OF h1, where tid = 0 and timeout = "Some 3" and e = stuck
                                 and args = "(1, 1, None)"]
  note b = registry_invariant [OF h2, where tid = 0 and timeout = None and e = quiet
                                 and args = "(1, 1, None)"]
  note a6 = a [THEN conjunct2, THEN conjunct2, THEN conjunct2, THEN conjunct2, THEN conjunct2,
               THEN conjunct1, rule_format, OF z]
  from a6 z have k: "map_option THREADS (after (join 0 (Some 3) stuck blinking_led)) = Some {0}"
    by (simp add: blinking_led_simps)
  from b [THEN conjunct2, THEN conjunct1]
  have s1: "THREADS (final (start 0 joined_led)) = {0}"
    by (simp add: joined_led_simps)
  from b [THEN conjunct1] s1 have s2: "awaited 0 (log (final (start 0 joined_led)))"
    by simp
  have p1: "0 \<in> THREADS blinking_led" by (simp add: blinking_led_simps)
  have p2: "0 \<notin> THREADS joined_led" by (simp add: joined_led_simps)
  from p2 h2 have p3: "\<not> awaited 0 (log joined_led)" by simp
  have p4: "raised (join 0 (Some 3) stuck blinking_led) = Some (ZombieThread (zombie_message 3))"
    by (simp add: z)
  from h1 p1 p4 k j p2 p3 s1 s2 show ?thesis by (intro conjI)
qed

text \<open>
  C3 as stated fails.  Thread 0 was started, ran its two rounds and was found
  dead by a join, which took it out of \<^verbatim>\<open>_THREADS\<close>.  A second \<^verbatim>\<open>start()\<close> on it
  registers it again before \<^verbatim>\<open>Thread.start\<close> refuses the call: the thread is
  then in \<^verbatim>\<open>_THREADS\<close> although a join has confirmed its termination, and it is
  dead.
\<close>

theorem restart_registers_dead_thread:
  "Started 0 \<in> set (log joined_led) \<and> Confirmed 0 \<in> set (log joined_led) \<and>
   0 \<notin> THREADS joined_led \<and>
   raised (Some (start 0 joined_led)) = Some (RuntimeError ''threads can only be started once'') \<and>
   0 \<in> THREADS (final (start 0 joined_led)) \<and>
   Confirmed 0 \<in> set (log (final (start 0 joined_led))) \<and>
   \<not> alive (heap (final (start 0 joined_led)) 0)"
  by (simp add: joined_led_simps start_def super_start_def Let_def)

end
